theory Spec2Isabelle
  imports Complex_Main "HOL-Library.Sublist"
begin

section \<open>Strings\<close>

text \<open>
  A Python \<open>str\<close> is modelled as a \<open>string\<close>; a \<open>char\<close> stands for the code point of the
  same number, so the model covers text whose code points are below 256. The white space
  of \<open>str.strip()\<close> and of the pattern \<open>\s\<close> is the same set of code points: tab, line
  feed, vertical tab, form feed, carriage return, the four separators 28 to 31, space, next
  line (133) and no-break space (160).
\<close>

definition code :: "char \<Rightarrow> nat" where
  "code c = of_char c"

definition is_space :: "char \<Rightarrow> bool" where
  "is_space c \<longleftrightarrow> (9 \<le> code c \<and> code c \<le> 13) \<or> (28 \<le> code c \<and> code c \<le> 32)
     \<or> code c = 133 \<or> code c = 160"

text \<open>\<open>s.strip()\<close>: leading and trailing white space removed.\<close>

definition strip :: "string \<Rightarrow> string" where
  "strip s = rev (dropWhile is_space (rev (dropWhile is_space s)))"

definition startswith :: "string \<Rightarrow> string \<Rightarrow> bool" where
  "startswith s p = prefix p s"

definition endswith :: "string \<Rightarrow> string \<Rightarrow> bool" where
  "endswith s p = suffix p s"

section \<open>The regular expressions of the entry matcher\<close>

text \<open>
  The two patterns of \<open>process_file\<close> are sequences of literals and of greedy repetitions of
  one character class, three of them inside capture groups. \<open>re.match\<close> tries the
  alternatives of every repetition longest first and backtracks; the first complete match
  wins. The matcher below returns all ways to match in that order of preference, each
  with the groups it captured and the text left over, so that the head of the list is the
  match \<open>re.match\<close> reports. (The leading \<open>^\<close> of the patterns holds at the position where
  \<open>re.match\<close> starts and is left out.)
\<close>

datatype item =
    Lit string
  | Star "char \<Rightarrow> bool"
  | Plus "char \<Rightarrow> bool"
  | Group nat item

type_synonym groups = "nat \<Rightarrow> string"

text \<open>The texts left after \<open>cls*\<close>, the longest repetition first.\<close>

fun star_rests :: "(char \<Rightarrow> bool) \<Rightarrow> string \<Rightarrow> string list" where
  "star_rests cls [] = [[]]"
| "star_rests cls (c # t) = (if cls c then star_rests cls t @ [c # t] else [c # t])"

fun plus_rests :: "(char \<Rightarrow> bool) \<Rightarrow> string \<Rightarrow> string list" where
  "plus_rests cls [] = []"
| "plus_rests cls (c # t) = (if cls c then star_rests cls t else [])"

fun ms_item :: "item \<Rightarrow> groups \<times> string \<Rightarrow> (groups \<times> string) list" where
  "ms_item (Lit s) (g, t) = (if prefix s t then [(g, drop (length s) t)] else [])"
| "ms_item (Star cls) (g, t) = map (Pair g) (star_rests cls t)"
| "ms_item (Plus cls) (g, t) = map (Pair g) (plus_rests cls t)"
| "ms_item (Group i r) (g, t) =
     map (\<lambda>(g', rest). (g'(i := take (length t - length rest) t), rest)) (ms_item r (g, t))"

fun ms :: "item list \<Rightarrow> groups \<times> string \<Rightarrow> (groups \<times> string) list" where
  "ms [] x = [x]"
| "ms (r # rs) x = concat (map (ms rs) (ms_item r x))"

definition re_match :: "item list \<Rightarrow> string \<Rightarrow> groups option" where
  "re_match pat t = (case ms pat (\<lambda>_. [], t) of [] \<Rightarrow> None | (g, _) # _ \<Rightarrow> Some g)"

text \<open>The character classes: \<open>[a-z0-9-_]\<close>, \<open>\s\<close>, \<open>[^"]\<close> and \<open>.\<close> (anything but a line feed).\<close>

definition name_char :: "char \<Rightarrow> bool" where
  "name_char c \<longleftrightarrow> (code CHR ''a'' \<le> code c \<and> code c \<le> code CHR ''z'')
     \<or> (code CHR ''0'' \<le> code c \<and> code c \<le> code CHR ''9'')
     \<or> c = CHR ''-'' \<or> c = CHR ''_''"

definition not_quote :: "char \<Rightarrow> bool" where
  "not_quote c \<longleftrightarrow> c \<noteq> CHR ''\"''"

definition dot :: "char \<Rightarrow> bool" where
  "dot c \<longleftrightarrow> c \<noteq> CHR 0x0A"

text \<open>\<^verbatim>\<open>^([a-z0-9-_]+)\s*=\s*\{\s*version\s*=\s*"([^"]+)"(.*)\}\<close>\<close>

definition inline_re :: "item list" where
  "inline_re = [Group 1 (Plus name_char), Star is_space, Lit ''='', Star is_space, Lit ''{'',
     Star is_space, Lit ''version'', Star is_space, Lit ''='', Star is_space, Lit ''\"'',
     Group 2 (Plus not_quote), Lit ''\"'', Group 3 (Star dot), Lit ''}'']"

text \<open>\<^verbatim>\<open>^([a-z0-9-_]+)\s*=\s*"([^"]+)"\<close>\<close>

definition str_re :: "item list" where
  "str_re = [Group 1 (Plus name_char), Star is_space, Lit ''='', Star is_space, Lit ''\"'',
     Group 2 (Plus not_quote), Lit ''\"'']"

section \<open>The line-processing pipeline\<close>

text \<open>
  \<open>process_file\<close> calls the module's \<open>get_latest_version\<close> once for each matched entry. Here
  the resolver is a parameter, a function from the package name to the resolved version:
  \<open>None\<close> is Python's \<open>None\<close> and \<open>Some v\<close> the \<open>str\<close> \<open>v\<close>, the results the registry
  interface declares. The state of the loop holds the flag \<open>in_deps\<close> and the list
  \<open>new_lines\<close>, together with what the run has printed to standard output (one element for
  each \<open>print\<close>) and the names it has looked up, in order.
\<close>

record pstate =
  in_deps :: bool
  new_lines :: "string list"
  stdout :: "string list"
  lookups :: "string list"

definition dep_sections :: "string list" where
  "dep_sections = [''[dependencies]'', ''[dev-dependencies]'', ''[build-dependencies]'']"

text \<open>The condition \<open>latest and latest != current_ver\<close>: \<open>None\<close> and the empty \<open>str\<close> are false.\<close>

definition truthy :: "string option \<Rightarrow> bool" where
  "truthy latest \<longleftrightarrow> latest \<noteq> None \<and> latest \<noteq> Some []"

definition updating :: "string \<Rightarrow> string \<Rightarrow> string \<Rightarrow> string" where
  "updating name current_ver latest = ''Updating '' @ name @ '': '' @ current_ver @ '' -> '' @ latest"

text \<open>One iteration of the loop of \<open>process_file\<close> in \<open>update_deps.py\<close>.\<close>

definition process_line :: "(string \<Rightarrow> string option) \<Rightarrow> pstate \<Rightarrow> string \<Rightarrow> pstate" where
  "process_line get_latest_version st line =
    (let stripped = strip line in
     if startswith stripped ''['' \<and> endswith stripped '']'' then
       st\<lparr>in_deps := list_ex (startswith stripped) dep_sections,
          new_lines := new_lines st @ [line]\<rparr>
     else if \<not> in_deps st \<or> startswith stripped ''#'' \<or> stripped = [] then
       st\<lparr>new_lines := new_lines st @ [line]\<rparr>
     else
       (case re_match inline_re stripped of
          Some match_inline \<Rightarrow>
            (let name = match_inline 1;
                 current_ver = match_inline 2;
                 suffix = match_inline 3;
                 latest = get_latest_version name;
                 st1 = st\<lparr>lookups := lookups st @ [name]\<rparr>
             in if truthy latest \<and> latest \<noteq> Some current_ver then
                  st1\<lparr>stdout := stdout st1 @ [updating name current_ver (the latest)],
                      new_lines := new_lines st1 @
                        [name @ '' = { version = \"'' @ the latest @ ''\"'' @ suffix @ ''}'' @ [CHR 0x0A]]\<rparr>
                else st1\<lparr>new_lines := new_lines st1 @ [line]\<rparr>)
        | None \<Rightarrow>
            (case re_match str_re stripped of
               Some match_str \<Rightarrow>
                 (let name = match_str 1;
                      current_ver = match_str 2;
                      latest = get_latest_version name;
                      st1 = st\<lparr>lookups := lookups st @ [name]\<rparr>
                  in if truthy latest \<and> latest \<noteq> Some current_ver then
                       st1\<lparr>stdout := stdout st1 @ [updating name current_ver (the latest)],
                           new_lines := new_lines st1 @
                             [name @ '' = \"'' @ the latest @ ''\"'' @ [CHR 0x0A]]\<rparr>
                     else st1\<lparr>new_lines := new_lines st1 @ [line]\<rparr>)
             | None \<Rightarrow> st\<lparr>new_lines := new_lines st @ [line]\<rparr>)))"

definition init :: pstate where
  "init = \<lparr>in_deps = False, new_lines = [], stdout = [], lookups = []\<rparr>"

text \<open>
  \<open>process_file\<close>: the argument is what \<open>f.readlines()\<close> returns, the field \<open>new_lines\<close> of
  the result is what \<open>f.writelines\<close> writes back.
\<close>

definition process_file :: "(string \<Rightarrow> string option) \<Rightarrow> string list \<Rightarrow> pstate" where
  "process_file get_latest_version lines = foldl (process_line get_latest_version) init lines"

text \<open>One iteration of the loop of \<open>process_file\<close> in \<open>update_deps_stable.py\<close>.\<close>

definition process_line_stable :: "(string \<Rightarrow> string option) \<Rightarrow> pstate \<Rightarrow> string \<Rightarrow> pstate" where
  "process_line_stable get_latest_version st line =
    (let stripped = strip line in
     if startswith stripped ''['' \<and> endswith stripped '']'' then
       st\<lparr>in_deps := list_ex (startswith stripped) dep_sections,
          new_lines := new_lines st @ [line]\<rparr>
     else if \<not> in_deps st \<or> startswith stripped ''#'' \<or> stripped = [] then
       st\<lparr>new_lines := new_lines st @ [line]\<rparr>
     else
       (case re_match inline_re stripped of
          Some match_inline \<Rightarrow>
            (let name = match_inline 1;
                 current_ver = match_inline 2;
                 suffix = match_inline 3;
                 latest = get_latest_version name;
                 st1 = st\<lparr>lookups := lookups st @ [name]\<rparr>
             in if truthy latest \<and> latest \<noteq> Some current_ver then
                  st1\<lparr>stdout := stdout st1 @ [updating name current_ver (the latest)],
                      new_lines := new_lines st1 @
                        [name @ '' = { version = \"'' @ the latest @ ''\"'' @ suffix @ ''}'' @ [CHR 0x0A]]\<rparr>
                else st1\<lparr>new_lines := new_lines st1 @ [line]\<rparr>)
        | None \<Rightarrow>
            (case re_match str_re stripped of
               Some match_str \<Rightarrow>
                 (let name = match_str 1;
                      current_ver = match_str 2;
                      latest = get_latest_version name;
                      st1 = st\<lparr>lookups := lookups st @ [name]\<rparr>
                  in if truthy latest \<and> latest \<noteq> Some current_ver then
                       st1\<lparr>stdout := stdout st1 @ [updating name current_ver (the latest)],
                           new_lines := new_lines st1 @
                             [name @ '' = \"'' @ the latest @ ''\"'' @ [CHR 0x0A]]\<rparr>
                     else st1\<lparr>new_lines := new_lines st1 @ [line]\<rparr>)
             | None \<Rightarrow> st\<lparr>new_lines := new_lines st @ [line]\<rparr>)))"

definition process_file_stable :: "(string \<Rightarrow> string option) \<Rightarrow> string list \<Rightarrow> pstate" where
  "process_file_stable get_latest_version lines =
     foldl (process_line_stable get_latest_version) init lines"

section \<open>The version resolver\<close>

text \<open>
  The values a decoded response body is made of. An object is the list of its items; a key
  is looked up from the front. \<open>JNull\<close> is also Python's \<open>None\<close>, the value
  \<open>get_latest_version\<close> returns for absence.
\<close>

datatype jvalue =
    JNull
  | JBool bool
  | JNum rat
  | JStr string
  | JArr "jvalue list"
  | JObj "(string \<times> jvalue) list"

text \<open>
  The exceptions the body of the \<open>try\<close> can raise: those of \<open>requests.get\<close> and of
  \<open>response.json()\<close>, which carry the message of the library, and those of the interpreter
  on a value of the wrong shape. All of them are instances of \<open>Exception\<close>.
\<close>

datatype exn =
    Timeout string
  | ConnectionError string
  | RequestException string
  | JSONDecodeError string
  | KeyError string
  | TypeError
  | AttributeError

record response =
  status_code :: int
  json :: "exn + jvalue"

text \<open>\<open>v[k]\<close> with a \<open>str\<close> key: only a dict has one.\<close>

fun getitem :: "jvalue \<Rightarrow> string \<Rightarrow> exn + jvalue" where
  "getitem (JObj kvs) k = (case map_of kvs k of Some v \<Rightarrow> Inr v | None \<Rightarrow> Inl (KeyError k))"
| "getitem v k = Inl TypeError"

text \<open>\<open>data.get(k, default)\<close>: a method of dicts only.\<close>

fun get_default :: "jvalue \<Rightarrow> string \<Rightarrow> jvalue \<Rightarrow> exn + jvalue" where
  "get_default (JObj kvs) k d = (case map_of kvs k of Some v \<Rightarrow> Inr v | None \<Rightarrow> Inr d)"
| "get_default v k d = Inl AttributeError"

text \<open>
  The elements \<open>for v in versions\<close> runs through: those of a list, the characters of a
  \<open>str\<close>, the keys of a dict; nothing else is iterable.
\<close>

fun iterate :: "jvalue \<Rightarrow> exn + jvalue list" where
  "iterate (JArr xs) = Inr xs"
| "iterate (JStr s) = Inr (map (\<lambda>c. JStr [c]) s)"
| "iterate (JObj kvs) = Inr (map (\<lambda>kv. JStr (fst kv)) kvs)"
| "iterate v = Inl TypeError"

text \<open>The truth value of a value, as \<open>not v['yanked']\<close> takes it.\<close>

fun jtruthy :: "jvalue \<Rightarrow> bool" where
  "jtruthy JNull = False"
| "jtruthy (JBool b) = b"
| "jtruthy (JNum n) = (n \<noteq> 0)"
| "jtruthy (JStr s) = (s \<noteq> [])"
| "jtruthy (JArr xs) = (xs \<noteq> [])"
| "jtruthy (JObj kvs) = (kvs \<noteq> [])"

text \<open>\<open>'-' in num\<close>: a substring of a \<open>str\<close>, an element of a list, a key of a dict.\<close>

fun has_hyphen :: "jvalue \<Rightarrow> exn + bool" where
  "has_hyphen (JStr s) = Inr (CHR ''-'' \<in> set s)"
| "has_hyphen (JArr xs) = Inr (JStr ''-'' \<in> set xs)"
| "has_hyphen (JObj kvs) = Inr (''-'' \<in> set (map fst kvs))"
| "has_hyphen v = Inl TypeError"

definition url :: "string \<Rightarrow> string" where
  "url crate_name = ''https://crates.io/api/v1/crates/'' @ crate_name"

definition error_fetching :: "string \<Rightarrow> string \<Rightarrow> string" where
  "error_fetching crate_name detail = ''Error fetching '' @ crate_name @ '': '' @ detail"

text \<open>
  \<open>get_latest_version\<close> of \<open>update_deps.py\<close>. The parameter \<open>get\<close> is \<open>requests.get\<close> with the
  fixed header and timeout: what the network answers for a URL, an exception or a
  response. The parameter \<open>str_exn\<close> is the text \<open>{e}\<close> of an exception. The body of the
  \<open>try\<close> raises (\<open>Inl\<close>), returns a value (\<open>Inr (Some v)\<close>) or falls through
  (\<open>Inr None\<close>); the result is the value returned with the lines printed to the error stream.
\<close>

text \<open>\<open>data['crate']['max_version']\<close>\<close>

definition max_version_of :: "jvalue \<Rightarrow> exn + jvalue" where
  "max_version_of data =
    (case getitem data ''crate'' of
       Inl e \<Rightarrow> Inl e
     | Inr crate \<Rightarrow> getitem crate ''max_version'')"

definition try_latest :: "(string \<Rightarrow> exn + response) \<Rightarrow> string \<Rightarrow> exn + jvalue option" where
  "try_latest get crate_name =
    (case get (url crate_name) of
       Inl e \<Rightarrow> Inl e
     | Inr response \<Rightarrow>
         if status_code response = 200 then
           (case json response of
              Inl e \<Rightarrow> Inl e
            | Inr data \<Rightarrow>
                (case max_version_of data of
                   Inl e \<Rightarrow> Inl e
                 | Inr max_version \<Rightarrow> Inr (Some max_version)))
         else Inr None)"

definition get_latest_version ::
  "(exn \<Rightarrow> string) \<Rightarrow> (string \<Rightarrow> exn + response) \<Rightarrow> string \<Rightarrow> jvalue \<times> string list" where
  "get_latest_version str_exn get crate_name =
    (case try_latest get crate_name of
       Inl e \<Rightarrow> (JNull, [error_fetching crate_name (str_exn e)])
     | Inr (Some v) \<Rightarrow> (v, [])
     | Inr None \<Rightarrow> (JNull, []))"

text \<open>
  \<open>get_latest_version\<close> of \<open>update_deps_stable.py\<close>. The loop over \<open>versions\<close> returns the
  first \<open>num\<close> that passes the test (\<open>Some\<close>), or ends (\<open>None\<close>), or raises.
\<close>

fun versions_loop :: "jvalue list \<Rightarrow> exn + jvalue option" where
  "versions_loop [] = Inr None"
| "versions_loop (v # vs) =
    (case getitem v ''num'' of
       Inl e \<Rightarrow> Inl e
     | Inr num \<Rightarrow>
         (case getitem v ''yanked'' of
            Inl e \<Rightarrow> Inl e
          | Inr yanked \<Rightarrow>
              if jtruthy yanked then versions_loop vs
              else (case has_hyphen num of
                      Inl e \<Rightarrow> Inl e
                    | Inr h \<Rightarrow> if h then versions_loop vs else Inr (Some num))))"

text \<open>The statements between \<open>data = response.json()\<close> and the end of the \<open>if\<close>.\<close>

definition select_stable :: "jvalue \<Rightarrow> exn + jvalue" where
  "select_stable data =
    (case get_default data ''versions'' (JArr []) of
       Inl e \<Rightarrow> Inl e
     | Inr versions \<Rightarrow>
         (case iterate versions of
            Inl e \<Rightarrow> Inl e
          | Inr vs \<Rightarrow>
              (case versions_loop vs of
                 Inl e \<Rightarrow> Inl e
               | Inr (Some num) \<Rightarrow> Inr num
               | Inr None \<Rightarrow> max_version_of data)))"

definition try_stable :: "(string \<Rightarrow> exn + response) \<Rightarrow> string \<Rightarrow> exn + jvalue option" where
  "try_stable get crate_name =
    (case get (url crate_name) of
       Inl e \<Rightarrow> Inl e
     | Inr response \<Rightarrow>
         if status_code response = 200 then
           (case json response of
              Inl e \<Rightarrow> Inl e
            | Inr data \<Rightarrow>
                (case select_stable data of
                   Inl e \<Rightarrow> Inl e
                 | Inr v \<Rightarrow> Inr (Some v)))
         else Inr None)"

definition get_latest_version_stable ::
  "(exn \<Rightarrow> string) \<Rightarrow> (string \<Rightarrow> exn + response) \<Rightarrow> string \<Rightarrow> jvalue \<times> string list" where
  "get_latest_version_stable str_exn get crate_name =
    (case try_stable get crate_name of
       Inl e \<Rightarrow> (JNull, [error_fetching crate_name (str_exn e)])
     | Inr (Some v) \<Rightarrow> (v, [])
     | Inr None \<Rightarrow> (JNull, []))"

section \<open>Notions used in the statements\<close>

text \<open>The test of the section tracker on the trimmed line.\<close>

definition is_header :: "string \<Rightarrow> bool" where
  "is_header t \<longleftrightarrow> startswith t ''['' \<and> endswith t '']''"

text \<open>
  A line reaches the entry matcher when the flag is set and its trimmed text is no header,
  no comment and not empty.
\<close>

definition candidate :: "bool \<Rightarrow> string \<Rightarrow> bool" where
  "candidate b line \<longleftrightarrow>
     b \<and> \<not> is_header (strip line) \<and> \<not> startswith (strip line) ''#'' \<and> strip line \<noteq> []"

text \<open>
  The name and the declared version the entry matcher takes from a trimmed line: the
  inline-table pattern is tried first, the bare-string pattern second.
\<close>

definition entry :: "string \<Rightarrow> (string \<times> string) option" where
  "entry t =
    (case re_match inline_re t of
       Some m \<Rightarrow> Some (m 1, m 2)
     | None \<Rightarrow> (case re_match str_re t of Some m \<Rightarrow> Some (m 1, m 2) | None \<Rightarrow> None))"

definition matched :: "bool \<Rightarrow> string \<Rightarrow> (string \<times> string) option" where
  "matched b line = (if candidate b line then entry (strip line) else None)"

text \<open>The line one iteration appends to \<open>new_lines\<close>, for the flag \<open>b\<close>.\<close>

definition emitted :: "(string \<Rightarrow> string option) \<Rightarrow> bool \<Rightarrow> string \<Rightarrow> string" where
  "emitted r b line = last (new_lines (process_line r (init\<lparr>in_deps := b\<rparr>) line))"

text \<open>A text ends in exactly one line feed.\<close>

definition one_newline :: "string \<Rightarrow> bool" where
  "one_newline l \<longleftrightarrow>
     l \<noteq> [] \<and> last l = CHR 0x0A \<and> (butlast l = [] \<or> last (butlast l) \<noteq> CHR 0x0A)"

text \<open>
  The bare-string form in the words of the specification: the trimmed line is a name of
  one or more characters of \<open>[a-z0-9_-]\<close>, an equals sign with optional white space on both
  sides, and a quoted version \<open>V\<close> of one or more characters other than the quote.
\<close>

definition bare_string_form :: "string \<Rightarrow> string \<Rightarrow> string \<Rightarrow> string \<Rightarrow> string" where
  "bare_string_form name ws1 ws2 V = name @ ws1 @ ''='' @ ws2 @ ''\"'' @ V @ ''\"''"

definition parts_ok :: "string \<Rightarrow> string \<Rightarrow> string \<Rightarrow> string \<Rightarrow> bool" where
  "parts_ok name ws1 ws2 V \<longleftrightarrow>
     name \<noteq> [] \<and> list_all name_char name \<and> list_all is_space ws1 \<and> list_all is_space ws2
     \<and> V \<noteq> [] \<and> list_all not_quote V"

definition spec_bare_string :: "string \<Rightarrow> bool" where
  "spec_bare_string t \<longleftrightarrow>
     (\<exists>name ws1 ws2 V. parts_ok name ws1 ws2 V \<and> t = bare_string_form name ws1 ws2 V)"

text \<open>The trimmed line begins with the bare-string form; any text may follow.\<close>

definition bare_string_prefix :: "string \<Rightarrow> bool" where
  "bare_string_prefix t \<longleftrightarrow>
     (\<exists>name ws1 ws2 V rest.
        parts_ok name ws1 ws2 V \<and> t = bare_string_form name ws1 ws2 V @ rest)"

text \<open>
  An element of the \<open>versions\<close> list as the registry interface declares it: an object whose
  \<open>num\<close> is a string and whose \<open>yanked\<close> is a boolean. The selection in the words of the
  specification: the \<open>num\<close> of the first element with \<open>yanked == false\<close> and no hyphen.
\<close>

definition version_fields :: "jvalue \<Rightarrow> (string \<times> bool) option" where
  "version_fields v =
    (case v of
       JObj fs \<Rightarrow>
         (case (map_of fs ''num'', map_of fs ''yanked'') of
            (Some (JStr num), Some (JBool yanked)) \<Rightarrow> Some (num, yanked)
          | _ \<Rightarrow> None)
     | _ \<Rightarrow> None)"

definition first_stable :: "(string \<times> bool) list \<Rightarrow> string option" where
  "first_stable vs =
     map_option fst (find (\<lambda>v. snd v = False \<and> CHR ''-'' \<notin> set (fst v)) vs)"

section \<open>Sample inputs\<close>

text \<open>
  The state of the loop inside a dependency section; resolvers that give every name the
  same version, or none, or the version the sample manifest declares; a manifest with a dependency section followed by another section;
  a network that gives every request the same answer; the body of a registry response.
  The text of an exception is whatever the interpreter and the libraries make it;
  \<open>exn_text\<close> is one such rendering.
\<close>

definition in_section :: pstate where
  "in_section = init\<lparr>in_deps := True\<rparr>"

definition returns :: "string \<Rightarrow> string \<Rightarrow> string option" where
  "returns v name = Some v"

definition absent :: "string \<Rightarrow> string option" where
  "absent name = None"

definition own_versions :: "string \<Rightarrow> string option" where
  "own_versions = map_of [(''serde'', ''1.0.0''), (''libc'', ''0.2.0'')]"

definition manifest :: "string list" where
  "manifest =
    [''[package]\<newline>'',
     ''name = \"ms\"\<newline>'',
     ''[dependencies]\<newline>'',
     ''# pinned\<newline>'',
     ''serde = { version = \"1.0.0\", features = [\"derive\"] }\<newline>'',
     ''libc = \"0.2.0\"\<newline>'',
     ''members = [\<newline>'',
     ''[profile.release]\<newline>'',
     ''libc = \"0.2.0\"'']"

definition answers :: "exn + response \<Rightarrow> string \<Rightarrow> exn + response" where
  "answers a u = a"

fun exn_text :: "exn \<Rightarrow> string" where
  "exn_text (Timeout m) = m"
| "exn_text (ConnectionError m) = m"
| "exn_text (RequestException m) = m"
| "exn_text (JSONDecodeError m) = m"
| "exn_text (KeyError k) = [CHR 0x27] @ k @ [CHR 0x27]"
| "exn_text TypeError = ''TypeError''"
| "exn_text AttributeError = ''AttributeError''"

definition version_obj :: "string \<Rightarrow> bool \<Rightarrow> jvalue" where
  "version_obj num yanked = JObj [(''num'', JStr num), (''yanked'', JBool yanked)]"

definition registry_body :: jvalue where
  "registry_body =
    JObj [(''crate'', JObj [(''max_version'', JStr ''2.0.0-beta.1'')]),
          (''versions'', JArr [version_obj ''2.0.0-beta.1'' False, version_obj ''1.9.0'' False,
                               version_obj ''1.8.0'' True])]"

section \<open>One iteration of the loop\<close>

lemma process_line_stable_eq: "process_line_stable r st line = process_line r st line"
  by (simp add: process_line_stable_def process_line_def)

lemma process_file_stable_eq: "process_file_stable r lines = process_file r lines"
proof -
  have "process_line_stable r = process_line r"
    by (intro ext) (rule process_line_stable_eq)
  then show ?thesis
    by (simp add: process_file_stable_def process_file_def)
qed

lemma process_line_header:
  "is_header (strip line) \<Longrightarrow>
   process_line r st line =
     st\<lparr>in_deps := list_ex (startswith (strip line)) dep_sections,
        new_lines := new_lines st @ [line]\<rparr>"
  by (simp add: process_line_def is_header_def)

lemma process_line_skip:
  "\<not> is_header (strip line) \<Longrightarrow> \<not> candidate (in_deps st) line \<Longrightarrow>
   process_line r st line = st\<lparr>new_lines := new_lines st @ [line]\<rparr>"
  by (auto simp add: process_line_def is_header_def candidate_def)

lemma process_line_inline:
  "candidate (in_deps st) line \<Longrightarrow> re_match inline_re (strip line) = Some m \<Longrightarrow>
   process_line r st line =
     (if truthy (r (m 1)) \<and> r (m 1) \<noteq> Some (m 2) then
        st\<lparr>lookups := lookups st @ [m 1],
           stdout := stdout st @ [updating (m 1) (m 2) (the (r (m 1)))],
           new_lines := new_lines st @
             [m 1 @ '' = { version = \"'' @ the (r (m 1)) @ ''\"'' @ m 3 @ ''}'' @ [CHR 0x0A]]\<rparr>
      else st\<lparr>lookups := lookups st @ [m 1], new_lines := new_lines st @ [line]\<rparr>)"
  by (auto simp add: process_line_def is_header_def candidate_def Let_def)

lemma process_line_str:
  "candidate (in_deps st) line \<Longrightarrow> re_match inline_re (strip line) = None \<Longrightarrow>
   re_match str_re (strip line) = Some m \<Longrightarrow>
   process_line r st line =
     (if truthy (r (m 1)) \<and> r (m 1) \<noteq> Some (m 2) then
        st\<lparr>lookups := lookups st @ [m 1],
           stdout := stdout st @ [updating (m 1) (m 2) (the (r (m 1)))],
           new_lines := new_lines st @ [m 1 @ '' = \"'' @ the (r (m 1)) @ ''\"'' @ [CHR 0x0A]]\<rparr>
      else st\<lparr>lookups := lookups st @ [m 1], new_lines := new_lines st @ [line]\<rparr>)"
  by (auto simp add: process_line_def is_header_def candidate_def Let_def)

lemma process_line_unrecognized:
  "candidate (in_deps st) line \<Longrightarrow> re_match inline_re (strip line) = None \<Longrightarrow>
   re_match str_re (strip line) = None \<Longrightarrow>
   process_line r st line = st\<lparr>new_lines := new_lines st @ [line]\<rparr>"
  by (auto simp add: process_line_def is_header_def candidate_def Let_def)

lemma process_line_cases [case_names header skip inline str unrecognized]:
  assumes "is_header (strip line) \<Longrightarrow> P"
    and "\<not> is_header (strip line) \<Longrightarrow> \<not> candidate b line \<Longrightarrow> P"
    and "\<And>m. candidate b line \<Longrightarrow> re_match inline_re (strip line) = Some m \<Longrightarrow> P"
    and "\<And>m. candidate b line \<Longrightarrow> re_match inline_re (strip line) = None \<Longrightarrow>
           re_match str_re (strip line) = Some m \<Longrightarrow> P"
    and "candidate b line \<Longrightarrow> re_match inline_re (strip line) = None \<Longrightarrow>
           re_match str_re (strip line) = None \<Longrightarrow> P"
  shows P
  using assms
  by (cases "re_match inline_re (strip line)"; cases "re_match str_re (strip line)")
    (auto simp add: candidate_def)

lemmas process_line_simps =
  process_line_header process_line_skip process_line_inline process_line_str
  process_line_unrecognized

lemma entry_inline: "re_match inline_re t = Some m \<Longrightarrow> entry t = Some (m 1, m 2)"
  by (simp add: entry_def)

lemma entry_str:
  "re_match inline_re t = None \<Longrightarrow> re_match str_re t = Some m \<Longrightarrow> entry t = Some (m 1, m 2)"
  by (simp add: entry_def)

lemma entry_none:
  "re_match inline_re t = None \<Longrightarrow> re_match str_re t = None \<Longrightarrow> entry t = None"
  by (simp add: entry_def)

lemma in_deps_process_line:
  "in_deps (process_line r st line) =
     (if is_header (strip line) then list_ex (startswith (strip line)) dep_sections
      else in_deps st)"
  by (cases rule: process_line_cases [of line _ "in_deps st"])
    (simp_all add: process_line_simps candidate_def)

lemma new_lines_process_line:
  "new_lines (process_line r st line) = new_lines st @ [emitted r (in_deps st) line]"
  unfolding emitted_def
  by (cases rule: process_line_cases [of line _ "in_deps st"])
    (simp_all add: process_line_simps init_def)

lemma emitted_unmatched: "matched b line = None \<Longrightarrow> emitted r b line = line"
  unfolding emitted_def
  by (cases rule: process_line_cases [of line _ b])
    (simp_all add: process_line_simps init_def matched_def entry_inline entry_str)

text \<open>
  The inline-table pattern on a line with more than one closing brace: the third group
  runs to the last brace, and what follows that brace is not part of the match.
\<close>

lemma inline_re_last_brace:
  "map_option (\<lambda>m. (m 1, m 2, m 3))
     (re_match inline_re ''serde = { version = \"1.0.0\", features = [\"derive\"] } # x } y'')
   = Some (''serde'', ''1.0.0'', '', features = [\"derive\"] } # x '')"
  by code_simp

section \<open>The section tracker\<close>

text \<open>
  Claim C4. For every line of the manifest: if its trimmed text both starts with \<open>[\<close> and
  ends with \<open>]\<close>, the flag of the section tracker becomes true if and only if the trimmed
  text starts with one of the literal prefixes \<open>[dependencies]\<close>, \<open>[dev-dependencies]\<close>,
  \<open>[build-dependencies]\<close>, and false for any other bracketed line; a line that is not so
  bracketed leaves the flag unchanged; a bracketed header line is appended to the output
  unchanged and is never classified as a dependency entry (nothing is looked up and
  nothing is printed). This holds for the loop of both variants.
\<close>

theorem section_tracker:
  assumes "step = process_line \<or> step = process_line_stable"
  shows "(startswith (strip line) ''['' \<and> endswith (strip line) '']'' \<longrightarrow>
            (in_deps (step r st line) \<longleftrightarrow>
               startswith (strip line) ''[dependencies]''
               \<or> startswith (strip line) ''[dev-dependencies]''
               \<or> startswith (strip line) ''[build-dependencies]'')
            \<and> new_lines (step r st line) = new_lines st @ [line]
            \<and> lookups (step r st line) = lookups st
            \<and> stdout (step r st line) = stdout st)
       \<and> (\<not> (startswith (strip line) ''['' \<and> endswith (strip line) '']'') \<longrightarrow>
            in_deps (step r st line) = in_deps st)"
proof -
  have step: "step r st line = process_line r st line"
    using assms by (auto simp add: process_line_stable_eq)
  show ?thesis
    unfolding step
    by (cases "is_header (strip line)")
      (auto simp add: in_deps_process_line process_line_header dep_sections_def is_header_def)
qed

theorem section_tracker_witness:
  "in_deps (process_line absent init ''[dev-dependencies]\<newline>'')
   \<and> new_lines (process_line absent init ''[dev-dependencies]\<newline>'') = [''[dev-dependencies]\<newline>'']
   \<and> \<not> in_deps (process_line_stable absent in_section '' [profile.release]\<newline>'')
   \<and> in_deps (process_line_stable absent in_section ''libc = \"0.2.0\"\<newline>'')"
proof -
  let ?a = "''[dev-dependencies]\<newline>''" and ?b = "'' [profile.release]\<newline>''"
    and ?c = "''libc = \"0.2.0\"\<newline>''"
  have a: "startswith (strip ?a) ''['' \<and> endswith (strip ?a) '']''"
    "startswith (strip ?a) ''[dev-dependencies]''"
    by code_simp+
  have b: "startswith (strip ?b) ''['' \<and> endswith (strip ?b) '']''"
    "\<not> startswith (strip ?b) ''[dependencies]''"
    "\<not> startswith (strip ?b) ''[dev-dependencies]''"
    "\<not> startswith (strip ?b) ''[build-dependencies]''"
    by code_simp+
  have c: "\<not> (startswith (strip ?c) ''['' \<and> endswith (strip ?c) '']'')"
    by code_simp
  have "new_lines init = []" "in_deps in_section"
    by (simp_all add: init_def in_section_def)
  then show ?thesis
    using section_tracker [of process_line ?a absent init] a
      section_tracker [of process_line_stable ?b absent in_section] b
      section_tracker [of process_line_stable ?c absent in_section] c
    by simp
qed

section \<open>The two pipelines\<close>

text \<open>
  Claim C8. With the version resolver a parameter (a function from the package name to an
  optional version string), the line-processing pipelines of the two variants are equal:
  for every sequence of input lines and every resolver they end in the same state, that
  is, they produce the same output lines and the same diagnostics on standard output (and
  look up the same names).
\<close>

theorem pipelines_equal:
  "process_file_stable r lines = process_file r lines"
  by (rule process_file_stable_eq)

theorem pipelines_equal_witness:
  "process_file_stable (returns ''9.9.9'') manifest = process_file (returns ''9.9.9'') manifest
   \<and> stdout (process_file_stable (returns ''9.9.9'') manifest) =
     [''Updating serde: 1.0.0 -> 9.9.9'', ''Updating libc: 0.2.0 -> 9.9.9'']"
proof -
  have "stdout (process_file (returns ''9.9.9'') manifest) =
     [''Updating serde: 1.0.0 -> 9.9.9'', ''Updating libc: 0.2.0 -> 9.9.9'']"
    by code_simp
  then show ?thesis
    using pipelines_equal [of "returns ''9.9.9''" manifest] by simp
qed

section \<open>The line rewriter\<close>

lemma candidate_not_header: "candidate b line \<Longrightarrow> \<not> is_header (strip line)"
  by (simp add: candidate_def)

lemma process_line_unmatched:
  "matched (in_deps st) line = None \<Longrightarrow>
   new_lines (process_line r st line) = new_lines st @ [line]
   \<and> stdout (process_line r st line) = stdout st
   \<and> lookups (process_line r st line) = lookups st"
  by (cases rule: process_line_cases [of line _ "in_deps st"])
    (simp_all add: process_line_simps matched_def entry_inline entry_str)

lemma process_line_keep:
  "matched (in_deps st) line = Some (n, v) \<Longrightarrow> \<not> (truthy (r n) \<and> r n \<noteq> Some v) \<Longrightarrow>
   process_line r st line = st\<lparr>lookups := lookups st @ [n], new_lines := new_lines st @ [line]\<rparr>"
  by (cases rule: process_line_cases [of line _ "in_deps st"])
    (auto simp add: process_line_simps matched_def entry_inline entry_str entry_none
      split: if_splits dest: candidate_not_header)

lemma process_line_depends:
  "matched (in_deps st) line = Some (n, v) \<Longrightarrow> r n = r' n \<Longrightarrow>
   process_line r st line = process_line r' st line"
  by (cases rule: process_line_cases [of line _ "in_deps st"])
    (auto simp add: process_line_simps matched_def entry_inline entry_str entry_none
      split: if_splits dest: candidate_not_header)

lemma one_newline_snoc: "c \<noteq> CHR 0x0A \<Longrightarrow> one_newline (xs @ [c, CHR 0x0A])"
  by (simp add: one_newline_def butlast_append)

text \<open>
  Claim C5, as amended. For every matched dependency entry (\<open>m\<close> holds the groups of the
  pattern that matched: the name, the declared version and, for the inline-table form, the
  trailing attributes): if the resolved version is absence, the empty string, or equal to
  the declared version, the output line is the input line and nothing is printed; otherwise
  the diagnostic \<open>Updating {name}: {declared_version} -> {new_version}\<close> is printed and the
  line is rebuilt as \<open>{name} = "{new_version}"\<close> (bare-string form) or
  \<open>{name} = { version = "{new_version}"{trailing_attrs}}\<close> (inline-table form), followed by
  a line feed, so that it ends in exactly one line feed. This holds for both variants.
\<close>

theorem line_rewriter:
  assumes "step = process_line \<or> step = process_line_stable"
    and "candidate (in_deps st) line"
    and "re_match inline_re (strip line) = Some m
       \<or> re_match inline_re (strip line) = None \<and> re_match str_re (strip line) = Some m"
  shows "(r (m 1) = None \<or> r (m 1) = Some [] \<or> r (m 1) = Some (m 2) \<longrightarrow>
            new_lines (step r st line) = new_lines st @ [line]
            \<and> stdout (step r st line) = stdout st)
       \<and> (\<forall>latest. r (m 1) = Some latest \<and> latest \<noteq> [] \<and> latest \<noteq> m 2 \<longrightarrow>
            stdout (step r st line) =
              stdout st @ [''Updating '' @ m 1 @ '': '' @ m 2 @ '' -> '' @ latest]
            \<and> new_lines (step r st line) =
              new_lines st @
                [if re_match inline_re (strip line) = None
                 then m 1 @ '' = \"'' @ latest @ ''\"\<newline>''
                 else m 1 @ '' = { version = \"'' @ latest @ ''\"'' @ m 3 @ ''}\<newline>'']
            \<and> one_newline (last (new_lines (step r st line))))"
proof -
  have step: "step = process_line"
    using assms(1) by (auto simp add: process_line_stable_eq fun_eq_iff)
  have 1: "one_newline (m 1 @ '' = \"'' @ latest @ ''\"\<newline>'')" for latest
    using one_newline_snoc [of "CHR ''\"''" "m 1 @ '' = \"'' @ latest"] by simp
  have 2: "one_newline (m 1 @ '' = { version = \"'' @ latest @ ''\"'' @ m 3 @ ''}\<newline>'')"
    for latest
    using one_newline_snoc [of "CHR ''}''" "m 1 @ '' = { version = \"'' @ latest @ ''\"'' @ m 3"]
    by simp
  from assms(3) show ?thesis
  proof
    assume "re_match inline_re (strip line) = Some m"
    then show ?thesis
      unfolding step using 2
      by (auto simp add: process_line_inline [OF assms(2)] truthy_def updating_def)
  next
    assume "re_match inline_re (strip line) = None \<and> re_match str_re (strip line) = Some m"
    then show ?thesis
      unfolding step using 1
      by (auto simp add: process_line_str [OF assms(2)] truthy_def updating_def)
  qed
qed

text \<open>
  The inline-table example of the specification, and an entry whose lookup gives nothing.
\<close>

theorem line_rewriter_witness:
  "new_lines (process_line (returns ''1.0.200'') in_section
      ''serde = { version = \"1.0.0\", features = [\"derive\"] }\<newline>'')
     = [''serde = { version = \"1.0.200\", features = [\"derive\"] }\<newline>'']
   \<and> stdout (process_line (returns ''1.0.200'') in_section
      ''serde = { version = \"1.0.0\", features = [\"derive\"] }\<newline>'')
     = [''Updating serde: 1.0.0 -> 1.0.200'']
   \<and> new_lines (process_line_stable absent in_section ''libc = \"0.2.0\"'') = [''libc = \"0.2.0\"'']
   \<and> stdout (process_line_stable absent in_section ''libc = \"0.2.0\"'') = []"
proof -
  let ?a = "''serde = { version = \"1.0.0\", features = [\"derive\"] }\<newline>''"
  let ?m = "the (re_match inline_re (strip ?a))"
  let ?b = "''libc = \"0.2.0\"''"
  let ?n = "the (re_match str_re (strip ?b))"
  have i: "new_lines in_section = []" "stdout in_section = []"
    by (simp_all add: in_section_def init_def)
  have ca: "candidate (in_deps in_section) ?a" and cb: "candidate (in_deps in_section) ?b"
    by code_simp+
  have na: "re_match inline_re (strip ?a) \<noteq> None"
    by code_simp
  then have ha: "re_match inline_re (strip ?a) = Some ?m"
    by simp
  have ga: "?m 1 = ''serde''" "?m 2 = ''1.0.0''" "?m 3 = '', features = [\"derive\"] ''"
    by code_simp+
  have "re_match str_re (strip ?b) \<noteq> None"
    by code_simp
  then have "re_match str_re (strip ?b) = Some ?n"
    by simp
  moreover have nb: "re_match inline_re (strip ?b) = None"
    by code_simp
  ultimately have hb: "re_match inline_re (strip ?b) = None \<and> re_match str_re (strip ?b) = Some ?n"
    by simp
  have a: "stdout (process_line (returns ''1.0.200'') in_section ?a) =
        stdout in_section @ [''Updating '' @ ?m 1 @ '': '' @ ?m 2 @ '' -> '' @ ''1.0.200'']
      \<and> new_lines (process_line (returns ''1.0.200'') in_section ?a) =
        new_lines in_section @
          [if re_match inline_re (strip ?a) = None
           then ?m 1 @ '' = \"'' @ ''1.0.200'' @ ''\"\<newline>''
           else ?m 1 @ '' = { version = \"'' @ ''1.0.200'' @ ''\"'' @ ?m 3 @ ''}\<newline>'']"
    using line_rewriter [of process_line in_section ?a ?m "returns ''1.0.200''",
        OF _ ca disjI1 [OF ha]]
    unfolding ga by (simp add: returns_def)
  have b: "new_lines (process_line_stable absent in_section ?b) = new_lines in_section @ [?b]
      \<and> stdout (process_line_stable absent in_section ?b) = stdout in_section"
    using line_rewriter [of process_line_stable in_section ?b ?n absent, OF _ cb disjI2 [OF hb]]
    by (simp add: absent_def)
  from a b show ?thesis
    unfolding ga i by (simp add: na)
qed

text \<open>
  Claim C5 as stated fails where the resolver returns the empty string: the resolved
  version is neither absence nor the declared version, yet the line stays as it is and
  nothing is printed.
\<close>

theorem line_rewriter_counterexample:
  "matched (in_deps in_section) ''libc = \"0.2.0\"\<newline>'' = Some (''libc'', ''0.2.0'')
   \<and> returns [] ''libc'' \<noteq> None
   \<and> returns [] ''libc'' \<noteq> Some ''0.2.0''
   \<and> new_lines (process_line (returns []) in_section ''libc = \"0.2.0\"\<newline>'')
       = [''libc = \"0.2.0\"\<newline>'']
   \<and> stdout (process_line (returns []) in_section ''libc = \"0.2.0\"\<newline>'') = []"
  by code_simp

text \<open>
  Claim C10. For every matched dependency entry, a resolved version that is the empty
  string is treated exactly like absence: the line is left unchanged and no diagnostic is
  printed; the iteration ends in the state it ends in when the lookup of that name returns
  nothing. This holds for both variants.
\<close>

theorem empty_version_like_absence:
  assumes "step = process_line \<or> step = process_line_stable"
    and "matched (in_deps st) line = Some (name, current_ver)"
    and "r name = Some []"
  shows "new_lines (step r st line) = new_lines st @ [line]
       \<and> stdout (step r st line) = stdout st
       \<and> step r st line = step (r(name := None)) st line"
proof -
  have step: "step = process_line"
    using assms(1) by (auto simp add: process_line_stable_eq fun_eq_iff)
  have "\<not> (truthy (r name) \<and> r name \<noteq> Some current_ver)"
    "\<not> (truthy ((r(name := None)) name) \<and> (r(name := None)) name \<noteq> Some current_ver)"
    using assms(3) by (simp_all add: truthy_def)
  then show ?thesis
    unfolding step by (simp add: process_line_keep [OF assms(2)])
qed

theorem empty_version_like_absence_witness:
  "matched (in_deps in_section) ''serde = { version = \"1.0.0\", features = [\"derive\"] }\<newline>''
     = Some (''serde'', ''1.0.0'')
   \<and> returns [] ''serde'' = Some []
   \<and> new_lines (process_line_stable (returns []) in_section
        ''serde = { version = \"1.0.0\", features = [\"derive\"] }\<newline>'')
       = [''serde = { version = \"1.0.0\", features = [\"derive\"] }\<newline>'']
   \<and> stdout (process_line_stable (returns []) in_section
        ''serde = { version = \"1.0.0\", features = [\"derive\"] }\<newline>'') = []"
proof -
  let ?l = "''serde = { version = \"1.0.0\", features = [\"derive\"] }\<newline>''"
  have m: "matched (in_deps in_section) ?l = Some (''serde'', ''1.0.0'')"
    by code_simp
  have r: "returns [] ''serde'' = Some []"
    by (simp add: returns_def)
  have i: "new_lines in_section = []" "stdout in_section = []"
    by (simp_all add: in_section_def init_def)
  have "new_lines (process_line_stable (returns []) in_section ?l) = new_lines in_section @ [?l]
      \<and> stdout (process_line_stable (returns []) in_section ?l) = stdout in_section"
    using empty_version_like_absence [of process_line_stable in_section ?l "''serde''" "''1.0.0''"
        "returns []", OF _ m r] by fast
  then show ?thesis
    using m r by (simp add: i)
qed

section \<open>The whole run\<close>

lemma process_file_snoc: "process_file r (xs @ [x]) = process_line r (process_file r xs) x"
  by (simp add: process_file_def)

lemma in_deps_process_file: "in_deps (process_file r xs) = in_deps (process_file r' xs)"
  by (induction xs rule: rev_induct)
    (simp_all add: process_file_def in_deps_process_line)

lemma new_lines_process_file:
  "new_lines (process_file r lines) =
     map (\<lambda>i. emitted r (in_deps (process_file r (take i lines))) (lines ! i)) [0..<length lines]"
proof (induction lines rule: rev_induct)
  case Nil
  show ?case
    by (simp add: process_file_def init_def)
next
  case (snoc x xs)
  have "map (\<lambda>i. emitted r (in_deps (process_file r (take i (xs @ [x])))) ((xs @ [x]) ! i))
          [0..<length xs] =
        map (\<lambda>i. emitted r (in_deps (process_file r (take i xs))) (xs ! i)) [0..<length xs]"
    by (rule map_cong) (simp_all add: nth_append)
  then show ?case
    by (simp add: process_file_snoc new_lines_process_line snoc.IH)
qed

lemma length_new_lines: "length (new_lines (process_file r lines)) = length lines"
  by (simp add: new_lines_process_file)

lemma nth_new_lines:
  "i < length lines \<Longrightarrow>
   new_lines (process_file r lines) ! i =
     emitted r (in_deps (process_file r (take i lines))) (lines ! i)"
  by (simp add: new_lines_process_file)

lemma emitted_keep:
  "matched b line = Some (n, v) \<Longrightarrow> \<not> (truthy (r n) \<and> r n \<noteq> Some v) \<Longrightarrow>
   emitted r b line = line"
  unfolding emitted_def
  using process_line_keep [of "init\<lparr>in_deps := b\<rparr>" line n v r] by simp

lemma emitted_depends:
  "matched b line = Some (n, v) \<Longrightarrow> r n = r' n \<Longrightarrow> emitted r b line = emitted r' b line"
  unfolding emitted_def
  using process_line_depends [of "init\<lparr>in_deps := b\<rparr>" line n v r r'] by simp

lemma process_line_no_change:
  assumes "\<And>n v. matched (in_deps st) line = Some (n, v) \<Longrightarrow> r n = Some v"
  shows "new_lines (process_line r st line) = new_lines st @ [line]
       \<and> stdout (process_line r st line) = stdout st"
proof (cases "matched (in_deps st) line")
  case None
  then show ?thesis
    by (simp add: process_line_unmatched)
next
  case (Some e)
  obtain n v where e: "e = (n, v)"
    by (cases e)
  have "\<not> (truthy (r n) \<and> r n \<noteq> Some v)"
    using assms Some e by simp
  from process_line_keep [of st line n v r, OF Some [unfolded e] this] show ?thesis
    by simp
qed

text \<open>
  Claim C6. For every input line that lies outside a recognized dependency section (the
  flag is false when the loop reaches it), or that is unrecognized within one (a comment,
  an empty line, or a line neither pattern matches), the corresponding output line is the
  input line, whatever the resolver returns; the flag itself does not depend on the
  resolver. This holds for both variants.
\<close>

theorem untouched_lines:
  assumes "pipeline = process_file \<or> pipeline = process_file_stable"
    and "i < length lines"
    and "\<not> in_deps (pipeline r (take i lines))
       \<or> startswith (strip (lines ! i)) ''#''
       \<or> strip (lines ! i) = []
       \<or> re_match inline_re (strip (lines ! i)) = None
         \<and> re_match str_re (strip (lines ! i)) = None"
  shows "new_lines (pipeline r' lines) ! i = lines ! i"
proof -
  have pipeline: "pipeline = process_file"
    using assms(1) by (auto simp add: process_file_stable_eq fun_eq_iff)
  have "in_deps (process_file r' (take i lines)) = in_deps (process_file r (take i lines))"
    by (rule in_deps_process_file)
  with assms(3) have "matched (in_deps (process_file r' (take i lines))) (lines ! i) = None"
    unfolding pipeline by (auto simp add: matched_def candidate_def entry_none)
  then show ?thesis
    unfolding pipeline by (simp add: nth_new_lines [OF assms(2)] emitted_unmatched)
qed

text \<open>
  In the sample manifest the dependency-shaped last line follows \<open>[profile.release]\<close> and
  is left untouched, and so is the unrecognized line inside the dependency section.
\<close>

theorem untouched_lines_witness:
  "\<not> in_deps (process_file absent (take 8 manifest))
   \<and> manifest ! 7 = ''[profile.release]\<newline>''
   \<and> manifest ! 8 = ''libc = \"0.2.0\"''
   \<and> new_lines (process_file (returns ''9.9.9'') manifest) ! 8 = ''libc = \"0.2.0\"''
   \<and> new_lines (process_file_stable (returns ''9.9.9'') manifest) ! 6 = ''members = [\<newline>''"
proof -
  have l: "8 < length manifest" "6 < length manifest"
    by code_simp+
  have a: "\<not> in_deps (process_file absent (take 8 manifest))"
    by code_simp
  have b: "re_match inline_re (strip (manifest ! 6)) = None
      \<and> re_match str_re (strip (manifest ! 6)) = None"
    by code_simp
  have m: "manifest ! 7 = ''[profile.release]\<newline>''" "manifest ! 8 = ''libc = \"0.2.0\"''"
    "manifest ! 6 = ''members = [\<newline>''"
    by code_simp+
  have "new_lines (process_file (returns ''9.9.9'') manifest) ! 8 = manifest ! 8"
    using untouched_lines [of process_file 8 manifest absent "returns ''9.9.9''"] l a by simp
  moreover have "new_lines (process_file_stable (returns ''9.9.9'') manifest) ! 6 = manifest ! 6"
    using untouched_lines [of process_file_stable 6 manifest absent "returns ''9.9.9''"] l b
    by simp
  ultimately show ?thesis
    using a m by simp
qed

text \<open>
  Claim C7. Running the pipeline with a resolver that returns, for every entry the run
  looks up, that entry's own declared version writes back the input lines exactly and
  prints nothing; running it again on the result does the same. No line is rebuilt, so
  the final-newline normalization never applies. This holds for both variants.
\<close>

theorem own_version_noop:
  assumes "pipeline = process_file \<or> pipeline = process_file_stable"
    and "\<forall>i<length lines. \<forall>name ver.
           matched (in_deps (pipeline r (take i lines))) (lines ! i) = Some (name, ver) \<longrightarrow>
           r name = Some ver"
  shows "new_lines (pipeline r lines) = lines
       \<and> stdout (pipeline r lines) = []
       \<and> new_lines (pipeline r (new_lines (pipeline r lines))) = lines"
proof -
  have pipeline: "pipeline = process_file"
    using assms(1) by (auto simp add: process_file_stable_eq fun_eq_iff)
  have "new_lines (process_file r lines) = lines \<and> stdout (process_file r lines) = []"
    using assms(2) unfolding pipeline
  proof (induction lines rule: rev_induct)
    case Nil
    show ?case
      by (simp add: process_file_def init_def)
  next
    case (snoc x xs)
    have "\<forall>i<length xs. \<forall>name ver.
           matched (in_deps (process_file r (take i xs))) (xs ! i) = Some (name, ver) \<longrightarrow>
           r name = Some ver"
    proof (intro allI impI)
      fix i name ver
      assume "i < length xs"
        and "matched (in_deps (process_file r (take i xs))) (xs ! i) = Some (name, ver)"
      then show "r name = Some ver"
        using snoc.prems [rule_format, of i name ver] by (simp add: nth_append)
    qed
    then have IH: "new_lines (process_file r xs) = xs" "stdout (process_file r xs) = []"
      using snoc.IH by simp_all
    have "r n = Some v" if "matched (in_deps (process_file r xs)) x = Some (n, v)" for n v
      using snoc.prems [rule_format, of "length xs" n v] that by simp
    from process_line_no_change [of "process_file r xs" x r, OF this] show ?case
      by (simp add: process_file_snoc IH)
  qed
  then show ?thesis
    unfolding pipeline by simp
qed

theorem own_version_noop_witness:
  "new_lines (process_file_stable own_versions manifest) = manifest
   \<and> stdout (process_file_stable own_versions manifest) = []
   \<and> lookups (process_file_stable own_versions manifest) = [''serde'', ''libc'']"
proof -
  have all: "list_all
      (\<lambda>i. case matched (in_deps (process_file_stable own_versions (take i manifest))) (manifest ! i)
           of None \<Rightarrow> True | Some (n, v) \<Rightarrow> own_versions n = Some v)
      [0..<length manifest]"
    by code_simp
  have h: "\<forall>i<length manifest. \<forall>name ver.
      matched (in_deps (process_file_stable own_versions (take i manifest))) (manifest ! i)
        = Some (name, ver) \<longrightarrow> own_versions name = Some ver"
  proof (intro allI impI)
    fix i name ver
    assume i: "i < length manifest"
      and m: "matched (in_deps (process_file_stable own_versions (take i manifest))) (manifest ! i)
        = Some (name, ver)"
    from all i
    have "case matched (in_deps (process_file_stable own_versions (take i manifest))) (manifest ! i)
      of None \<Rightarrow> True | Some (n, v) \<Rightarrow> own_versions n = Some v"
      by (simp add: list_all_iff)
    then show "own_versions name = Some ver"
      by (simp add: m)
  qed
  have "lookups (process_file_stable own_versions manifest) = [''serde'', ''libc'']"
    by code_simp
  then show ?thesis
    using own_version_noop [of process_file_stable manifest own_versions, OF _ h] by simp
qed

text \<open>
  Claim C9. For every sequence of input lines and every resolver: each input line yields
  exactly one output line, so the sequence written back has the length of the input; and
  when the lookup of one name returns absence instead of what it would have returned, the
  lines of the entries with that name stay as they are in the input and every other line,
  before or after, comes out exactly as it otherwise would. The run is a total function
  of the lines and the resolver: it always reaches the write of the full sequence. This
  holds for both variants.
\<close>

theorem failure_isolation:
  assumes "pipeline = process_file \<or> pipeline = process_file_stable"
  shows "length (new_lines (pipeline r lines)) = length lines
       \<and> (\<forall>i<length lines.
            new_lines (pipeline (r(name := None)) lines) ! i =
              (if \<exists>ver. matched (in_deps (pipeline r (take i lines))) (lines ! i) = Some (name, ver)
               then lines ! i else new_lines (pipeline r lines) ! i))"
proof -
  have pipeline: "pipeline = process_file"
    using assms(1) by (auto simp add: process_file_stable_eq fun_eq_iff)
  let ?r = "r(name := None)"
  have "new_lines (process_file ?r lines) ! i =
      (if \<exists>ver. matched (in_deps (process_file r (take i lines))) (lines ! i) = Some (name, ver)
       then lines ! i else new_lines (process_file r lines) ! i)"
    if i: "i < length lines" for i
  proof -
    let ?b = "in_deps (process_file r (take i lines))"
    have b: "in_deps (process_file ?r (take i lines)) = ?b"
      by (rule in_deps_process_file)
    show ?thesis
    proof (cases "matched ?b (lines ! i)")
      case None
      then show ?thesis
        by (simp add: nth_new_lines [OF i] b emitted_unmatched)
    next
      case (Some e)
      obtain n v where e: "e = (n, v)"
        by (cases e)
      show ?thesis
      proof (cases "n = name")
        case True
        have "emitted ?r ?b (lines ! i) = lines ! i"
          using Some unfolding e True by (rule emitted_keep) (simp add: truthy_def)
        then show ?thesis
          using Some by (simp add: nth_new_lines [OF i] b e True)
      next
        case False
        have "emitted ?r ?b (lines ! i) = emitted r ?b (lines ! i)"
          using Some unfolding e by (rule emitted_depends) (simp add: False)
        then show ?thesis
          using Some False by (simp add: nth_new_lines [OF i] b e)
      qed
    qed
  qed
  then show ?thesis
    unfolding pipeline by (simp add: length_new_lines)
qed

theorem failure_isolation_witness:
  "length (new_lines (process_file (returns ''9.9.9'') manifest)) = length manifest
   \<and> new_lines (process_file ((returns ''9.9.9'')(''serde'' := None)) manifest) ! 4 = manifest ! 4
   \<and> new_lines (process_file ((returns ''9.9.9'')(''serde'' := None)) manifest) ! 5
       = ''libc = \"9.9.9\"\<newline>''"
proof -
  let ?r = "returns ''9.9.9''"
  have l: "4 < length manifest" "5 < length manifest"
    by code_simp+
  have a: "matched (in_deps (process_file ?r (take 4 manifest))) (manifest ! 4)
      = Some (''serde'', ''1.0.0'')"
    by code_simp
  have b: "matched (in_deps (process_file ?r (take 5 manifest))) (manifest ! 5)
      = Some (''libc'', ''0.2.0'')"
    by code_simp
  have c: "new_lines (process_file ?r manifest) ! 5 = ''libc = \"9.9.9\"\<newline>''"
    by code_simp
  note t = failure_isolation [of process_file ?r manifest "''serde''"]
  have "new_lines (process_file (?r(''serde'' := None)) manifest) ! 4 = manifest ! 4"
    using t l(1) a by simp
  moreover have "new_lines (process_file (?r(''serde'' := None)) manifest) ! 5
      = new_lines (process_file ?r manifest) ! 5"
    using t l(2) b by simp
  ultimately show ?thesis
    using t c by simp
qed

section \<open>The bare-string pattern\<close>

text \<open>
  A greedy repetition followed by something that cannot start with a character of its
  class has one way to match only: the longest.
\<close>

lemma star_rests_det:
  assumes "\<And>c s. cls c \<Longrightarrow> f (c # s) = []"
  shows "concat (map f (star_rests cls t)) = f (dropWhile cls t)"
  by (induction t) (simp_all add: assms)

lemma plus_rests_det:
  assumes "\<And>c s. cls c \<Longrightarrow> f (c # s) = []"
  shows "concat (map f (plus_rests cls t)) =
     (if takeWhile cls t = [] then [] else f (dropWhile cls t))"
  by (cases t) (simp_all add: star_rests_det [of cls f, OF assms])

lemma take_length_dropWhile: "take (length t - length (dropWhile P t)) t = takeWhile P t"
  by (induction t) (simp_all add: Suc_diff_le length_dropWhile_le)

lemma ms_star:
  assumes "\<And>c s. cls c \<Longrightarrow> ms rs (g, c # s) = []"
  shows "ms (Star cls # rs) (g, t) = ms rs (g, dropWhile cls t)"
proof -
  have "ms (Star cls # rs) (g, t) = concat (map (\<lambda>rest. ms rs (g, rest)) (star_rests cls t))"
    by (simp add: comp_def)
  also have "\<dots> = ms rs (g, dropWhile cls t)"
    by (rule star_rests_det) (rule assms)
  finally show ?thesis .
qed

lemma ms_group_plus:
  assumes "\<And>g c s. cls c \<Longrightarrow> ms rs (g, c # s) = []"
  shows "ms (Group i (Plus cls) # rs) (g, t) =
     (if takeWhile cls t = [] then [] else ms rs (g(i := takeWhile cls t), dropWhile cls t))"
proof -
  have "ms (Group i (Plus cls) # rs) (g, t) =
      concat (map (\<lambda>rest. ms rs (g(i := take (length t - length rest) t), rest))
        (plus_rests cls t))"
    by (simp add: comp_def)
  also have "\<dots> = (if takeWhile cls t = [] then []
      else ms rs (g(i := take (length t - length (dropWhile cls t)) t), dropWhile cls t))"
    by (rule plus_rests_det) (rule assms)
  finally show ?thesis
    by (simp add: take_length_dropWhile)
qed

lemma ms_lit: "ms (Lit s # rs) (g, t) = (if prefix s t then ms rs (g, drop (length s) t) else [])"
  by simp

lemma ms_lit_fails: "c \<noteq> d \<Longrightarrow> ms (Lit (d # ds) # rs) (g, c # s) = []"
  by simp

lemma name_char_not_space: "name_char c \<Longrightarrow> \<not> is_space c"
  by (auto simp add: name_char_def is_space_def code_def)

lemma name_char_not_eq: "name_char c \<Longrightarrow> c \<noteq> CHR ''=''"
  by (auto simp add: name_char_def code_def)

lemma not_name_char_eq: "\<not> name_char CHR ''=''"
  by (simp add: name_char_def code_def)

lemma is_space_not_eq: "is_space c \<Longrightarrow> c \<noteq> CHR ''=''"
  by (auto simp add: is_space_def code_def)

lemma is_space_not_quote: "is_space c \<Longrightarrow> c \<noteq> CHR ''\"''"
  by (auto simp add: is_space_def code_def)

lemma ms_str_tail:
  "ms [Group 2 (Plus not_quote), Lit ''\"''] (g, t) =
     (if takeWhile not_quote t = [] then []
      else if prefix ''\"'' (dropWhile not_quote t)
        then [(g(2 := takeWhile not_quote t), drop 1 (dropWhile not_quote t))] else [])"
proof -
  have "\<And>g c s. not_quote c \<Longrightarrow> ms [Lit ''\"''] (g, c # s) = []"
    by (simp add: not_quote_def)
  then show ?thesis
    by (simp only: ms_group_plus) simp
qed

text \<open>What the bare-string pattern computes, as one scan from the left.\<close>

lemma ms_str_re:
  "ms str_re (g, t) =
    (let name = takeWhile name_char t;
         t1 = dropWhile is_space (dropWhile name_char t);
         t2 = dropWhile is_space (drop 1 t1);
         t3 = drop 1 t2;
         V = takeWhile not_quote t3
     in if name \<noteq> [] \<and> prefix ''='' t1 \<and> prefix ''\"'' t2 \<and> V \<noteq> []
            \<and> prefix ''\"'' (dropWhile not_quote t3)
        then [(g(1 := name, 2 := V), drop 1 (dropWhile not_quote t3))] else [])"
proof -
  let ?r5 = "[Group 2 (Plus not_quote), Lit ''\"'']"
  let ?r4 = "Lit ''\"'' # ?r5"
  let ?r3 = "Star is_space # ?r4"
  let ?r2 = "Lit ''='' # ?r3"
  let ?r1 = "Star is_space # ?r2"
  have a4: "\<And>g c s. is_space c \<Longrightarrow> ms ?r4 (g, c # s) = []"
    by (rule ms_lit_fails) (rule is_space_not_quote)
  have a2: "\<And>g c s. is_space c \<Longrightarrow> ms ?r2 (g, c # s) = []"
    by (rule ms_lit_fails) (rule is_space_not_eq)
  have s3: "\<And>g t. ms ?r3 (g, t) = ms ?r4 (g, dropWhile is_space t)"
    by (rule ms_star) (rule a4)
  have s1: "\<And>g t. ms ?r1 (g, t) = ms ?r2 (g, dropWhile is_space t)"
    by (rule ms_star) (rule a2)
  have a1: "ms ?r1 (g, c # s) = []" if "name_char c" for g c s
  proof -
    have "ms ?r1 (g, c # s) = ms ?r2 (g, c # s)"
      using that by (simp only: s1) (simp add: name_char_not_space)
    also have "\<dots> = []"
      using that by (intro ms_lit_fails name_char_not_eq)
    finally show ?thesis .
  qed
  have s0: "\<And>g t. ms (Group 1 (Plus name_char) # ?r1) (g, t) =
      (if takeWhile name_char t = [] then []
       else ms ?r1 (g(1 := takeWhile name_char t), dropWhile name_char t))"
    by (rule ms_group_plus) (rule a1)
  show ?thesis
    unfolding str_re_def
    by (simp only: s0 s1 s3 ms_lit ms_str_tail Let_def) simp
qed

lemma prefix_single: "prefix [c] t \<longleftrightarrow> (\<exists>u. t = c # u)"
  by (cases t) auto

lemma re_match_str_sound:
  assumes "re_match str_re t = Some m"
  shows "\<exists>ws1 ws2 rest.
     parts_ok (m 1) ws1 ws2 (m 2) \<and> t = bare_string_form (m 1) ws1 ws2 (m 2) @ rest"
proof -
  define name where "name = takeWhile name_char t"
  define t0 where "t0 = dropWhile name_char t"
  define ws1 where "ws1 = takeWhile is_space t0"
  define t1 where "t1 = dropWhile is_space t0"
  define ws2 where "ws2 = takeWhile is_space (drop 1 t1)"
  define t2 where "t2 = dropWhile is_space (drop 1 t1)"
  define V where "V = takeWhile not_quote (drop 1 t2)"
  define t4 where "t4 = dropWhile not_quote (drop 1 t2)"
  have closed: "ms str_re (\<lambda>_. [], t) =
      (if name \<noteq> [] \<and> prefix ''='' t1 \<and> prefix ''\"'' t2 \<and> V \<noteq> [] \<and> prefix ''\"'' t4
       then [((\<lambda>_. [])(1 := name, 2 := V), drop 1 t4)] else [])"
    by (simp add: ms_str_re Let_def name_def t0_def t1_def t2_def V_def t4_def)
  from assms have ok: "name \<noteq> []" "prefix ''='' t1" "prefix ''\"'' t2" "V \<noteq> []"
      "prefix ''\"'' t4"
    and m: "m = (\<lambda>_. [])(1 := name, 2 := V)"
    by (auto simp add: re_match_def closed split: if_splits)
  have m1: "m 1 = name" and m2: "m 2 = V"
    by (simp_all add: m)
  have "t = name @ t0"
    by (simp add: name_def t0_def)
  moreover have "t0 = ws1 @ t1"
    by (simp add: ws1_def t1_def)
  moreover have "t1 = CHR ''='' # drop 1 t1"
    using ok(2) by (auto simp add: prefix_single)
  moreover have "drop 1 t1 = ws2 @ t2"
    by (simp add: ws2_def t2_def)
  moreover have "t2 = CHR ''\"'' # drop 1 t2"
    using ok(3) by (auto simp add: prefix_single)
  moreover have "drop 1 t2 = V @ t4"
    by (simp add: V_def t4_def)
  moreover have "t4 = CHR ''\"'' # drop 1 t4"
    using ok(5) by (auto simp add: prefix_single)
  ultimately have "t = bare_string_form name ws1 ws2 V @ drop 1 t4"
    by (simp add: bare_string_form_def)
  moreover have "parts_ok name ws1 ws2 V"
    using ok(1,4)
    by (auto simp add: parts_ok_def name_def ws1_def ws2_def V_def list_all_iff
        dest: set_takeWhileD)
  ultimately show ?thesis
    unfolding m1 m2 by blast
qed

lemma takeWhile_all: "list_all P xs \<Longrightarrow> \<not> P y \<Longrightarrow> takeWhile P (xs @ y # ys) = xs"
  by (induction xs) simp_all

lemma dropWhile_all: "list_all P xs \<Longrightarrow> \<not> P y \<Longrightarrow> dropWhile P (xs @ y # ys) = y # ys"
  by (induction xs) simp_all

lemma takeWhile_name:
  assumes "list_all name_char name" "list_all is_space ws"
  shows "takeWhile name_char (name @ ws @ CHR ''='' # u) = name"
    and "dropWhile name_char (name @ ws @ CHR ''='' # u) = ws @ CHR ''='' # u"
proof -
  obtain y ys where "ws @ CHR ''='' # u = y # ys" "\<not> name_char y"
    using assms(2) name_char_not_space by (cases ws) (auto simp add: not_name_char_eq)
  then show "takeWhile name_char (name @ ws @ CHR ''='' # u) = name"
    and "dropWhile name_char (name @ ws @ CHR ''='' # u) = ws @ CHR ''='' # u"
    using assms(1) by (simp_all add: takeWhile_all dropWhile_all)
qed

lemma re_match_str_complete:
  assumes "parts_ok name ws1 ws2 V"
  shows "ms str_re (g, bare_string_form name ws1 ws2 V @ rest) = [(g(1 := name, 2 := V), rest)]"
proof -
  let ?u2 = "CHR ''\"'' # V @ CHR ''\"'' # rest"
  let ?u1 = "ws2 @ ?u2"
  let ?t = "name @ ws1 @ CHR ''='' # ?u1"
  from assms have p: "name \<noteq> []" "list_all name_char name" "list_all is_space ws1"
    "list_all is_space ws2" "V \<noteq> []" "list_all not_quote V"
    by (simp_all add: parts_ok_def)
  have t: "bare_string_form name ws1 ws2 V @ rest = ?t"
    by (simp add: bare_string_form_def)
  have 1: "takeWhile name_char ?t = name" "dropWhile name_char ?t = ws1 @ CHR ''='' # ?u1"
    using p(2,3) by (rule takeWhile_name)+
  have 2: "dropWhile is_space (ws1 @ CHR ''='' # ?u1) = CHR ''='' # ?u1"
    using p(3) by (rule dropWhile_all) (simp add: is_space_def code_def)
  have 3: "dropWhile is_space ?u1 = ?u2"
    using p(4) by (rule dropWhile_all) (simp add: is_space_def code_def)
  have 4: "takeWhile not_quote (V @ CHR ''\"'' # rest) = V"
    "dropWhile not_quote (V @ CHR ''\"'' # rest) = CHR ''\"'' # rest"
    using p(6) by (simp_all add: takeWhile_all dropWhile_all not_quote_def)
  show ?thesis
    unfolding t ms_str_re by (simp add: Let_def 1 2 3 4 p(1,5))
qed

lemma re_match_str_iff: "re_match str_re t \<noteq> None \<longleftrightarrow> bare_string_prefix t"
proof
  assume "re_match str_re t \<noteq> None"
  then obtain m where "re_match str_re t = Some m"
    by blast
  from re_match_str_sound [OF this] show "bare_string_prefix t"
    unfolding bare_string_prefix_def by blast
next
  assume "bare_string_prefix t"
  then obtain name ws1 ws2 V rest where "parts_ok name ws1 ws2 V"
    and t: "t = bare_string_form name ws1 ws2 V @ rest"
    unfolding bare_string_prefix_def by blast
  then show "re_match str_re t \<noteq> None"
    by (simp add: re_match_def re_match_str_complete)
qed

lemma spec_bare_string_last: "spec_bare_string t \<Longrightarrow> last t = CHR ''\"''"
  by (auto simp add: spec_bare_string_def bare_string_form_def)

text \<open>
  Claim C2, as amended. For every line inside a recognized dependency section that
  reaches the entry matcher (not a header, not a comment, not empty) and does not match
  the inline-table pattern: the line is classified as bare-string form exactly when its
  trimmed text begins with \<open>name = "V"\<close>, where \<open>name\<close> is one or more of \<open>[a-z0-9_-]\<close>, the
  equals sign may have white space on both sides and \<open>V\<close> is one or more characters other
  than the quote; whatever follows the closing quote, braces included, is ignored. Such a
  line is looked up under \<open>name\<close> with \<open>V\<close> as its declared version. Any other such line
  is unrecognized: it is appended unchanged, nothing is looked up and nothing is printed.
  This holds for both variants.
\<close>

theorem bare_string_classification:
  assumes "step = process_line \<or> step = process_line_stable"
    and "candidate (in_deps st) line"
    and "re_match inline_re (strip line) = None"
  shows "(re_match str_re (strip line) \<noteq> None \<longleftrightarrow> bare_string_prefix (strip line))
       \<and> (bare_string_prefix (strip line) \<longrightarrow>
            (\<exists>name ws1 ws2 V rest.
               parts_ok name ws1 ws2 V
               \<and> strip line = bare_string_form name ws1 ws2 V @ rest
               \<and> matched (in_deps st) line = Some (name, V)
               \<and> lookups (step r st line) = lookups st @ [name]))
       \<and> (\<not> bare_string_prefix (strip line) \<longrightarrow>
            step r st line = st\<lparr>new_lines := new_lines st @ [line]\<rparr>)"
proof -
  have step: "step = process_line"
    using assms(1) by (auto simp add: process_line_stable_eq fun_eq_iff)
  have "\<exists>name ws1 ws2 V rest.
      parts_ok name ws1 ws2 V
      \<and> strip line = bare_string_form name ws1 ws2 V @ rest
      \<and> matched (in_deps st) line = Some (name, V)
      \<and> lookups (process_line r st line) = lookups st @ [name]"
    if "bare_string_prefix (strip line)"
  proof -
    from that obtain m where m: "re_match str_re (strip line) = Some m"
      unfolding re_match_str_iff [symmetric] by blast
    from re_match_str_sound [OF m] obtain ws1 ws2 rest
      where "parts_ok (m 1) ws1 ws2 (m 2)"
        and "strip line = bare_string_form (m 1) ws1 ws2 (m 2) @ rest"
      by blast
    moreover have "matched (in_deps st) line = Some (m 1, m 2)"
      using assms(2,3) m by (simp add: matched_def entry_str)
    moreover have "lookups (process_line r st line) = lookups st @ [m 1]"
      by (simp add: process_line_str [OF assms(2,3) m])
    ultimately show ?thesis
      by blast
  qed
  moreover have "process_line r st line = st\<lparr>new_lines := new_lines st @ [line]\<rparr>"
    if "\<not> bare_string_prefix (strip line)"
  proof -
    from that have "re_match str_re (strip line) = None"
      unfolding re_match_str_iff [symmetric] by simp
    with assms(2,3) show ?thesis
      by (rule process_line_unrecognized)
  qed
  moreover note re_match_str_iff [of "strip line"]
  ultimately show ?thesis
    unfolding step by blast
qed

theorem bare_string_classification_witness:
  "lookups (process_line absent in_section ''libc = \"0.2.0\" # see {docs}\<newline>'') = [''libc'']
   \<and> process_line_stable (returns ''9.9.9'') in_section ''members = [\<newline>''
       = in_section\<lparr>new_lines := new_lines in_section @ [''members = [\<newline>'']\<rparr>"
proof -
  let ?a = "''libc = \"0.2.0\" # see {docs}\<newline>''" and ?b = "''members = [\<newline>''"
  have ca: "candidate (in_deps in_section) ?a" and cb: "candidate (in_deps in_section) ?b"
    by code_simp+
  have ia: "re_match inline_re (strip ?a) = None" and ib: "re_match inline_re (strip ?b) = None"
    by code_simp+
  have "parts_ok ''libc'' '' '' '' '' ''0.2.0''"
    and "strip ?a = bare_string_form ''libc'' '' '' '' '' ''0.2.0'' @ '' # see {docs}''"
    by code_simp+
  then have pa: "bare_string_prefix (strip ?a)"
    unfolding bare_string_prefix_def by blast
  have "re_match str_re (strip ?b) = None"
    by code_simp
  then have pb: "\<not> bare_string_prefix (strip ?b)"
    using bare_string_classification [of process_line_stable in_section ?b, OF _ cb ib]
    by simp
  have ma: "matched (in_deps in_section) ?a = Some (''libc'', ''0.2.0'')"
    by code_simp
  have l: "lookups in_section = []"
    by (simp add: in_section_def init_def)
  from bare_string_classification [of process_line in_section ?a absent, OF _ ca ia] pa
  obtain name V where "matched (in_deps in_section) ?a = Some (name, V)"
    and "lookups (process_line absent in_section ?a) = lookups in_section @ [name]"
    by blast
  then have "lookups (process_line absent in_section ?a) = [''libc'']"
    using ma l by simp
  moreover have "process_line_stable (returns ''9.9.9'') in_section ?b
      = in_section\<lparr>new_lines := new_lines in_section @ [?b]\<rparr>"
    using bare_string_classification [of process_line_stable in_section ?b "returns ''9.9.9''",
        OF _ cb ib] pb
    by blast
  ultimately show ?thesis
    by simp
qed

text \<open>
  Claim C2 as stated fails on a line with text after the closing quote: the trimmed line
  is not of the form \<open>name = "V"\<close> and it holds a brace, yet it is classified as a
  bare-string entry, looked up, and rewritten without the text that followed.
\<close>

theorem bare_string_classification_counterexample:
  "candidate (in_deps in_section) ''libc = \"0.2.0\" # see {docs}\<newline>''
   \<and> re_match inline_re (strip ''libc = \"0.2.0\" # see {docs}\<newline>'') = None
   \<and> \<not> spec_bare_string (strip ''libc = \"0.2.0\" # see {docs}\<newline>'')
   \<and> CHR ''{'' \<in> set (strip ''libc = \"0.2.0\" # see {docs}\<newline>'')
   \<and> lookups (process_line (returns ''0.2.150'') in_section
        ''libc = \"0.2.0\" # see {docs}\<newline>'') = [''libc'']
   \<and> new_lines (process_line (returns ''0.2.150'') in_section
        ''libc = \"0.2.0\" # see {docs}\<newline>'') = [''libc = \"0.2.150\"\<newline>'']"
proof -
  let ?a = "''libc = \"0.2.0\" # see {docs}\<newline>''"
  have "last (strip ?a) \<noteq> CHR ''\"''"
    by code_simp
  then have "\<not> spec_bare_string (strip ?a)"
    using spec_bare_string_last by blast
  moreover have "candidate (in_deps in_section) ?a"
    "re_match inline_re (strip ?a) = None"
    "CHR ''{'' \<in> set (strip ?a)"
    "lookups (process_line (returns ''0.2.150'') in_section ?a) = [''libc'']"
    "new_lines (process_line (returns ''0.2.150'') in_section ?a) = [''libc = \"0.2.150\"\<newline>'']"
    by code_simp+
  ultimately show ?thesis
    by simp
qed

section \<open>The version resolver: failures\<close>

text \<open>
  Claim C1, as amended. In both variants of \<open>get_latest_version\<close>: when the request raises
  (a timeout, a network failure), when the status is 200 and decoding the body raises, or
  when the status is 200 and taking the version out of the decoded body raises (\<open>decode\<close>
  is the part of the \<open>try\<close> that follows \<open>response.json()\<close>), the resolver prints the line
  \<open>Error fetching {name}: {detail}\<close> to the error stream and returns \<open>None\<close>. When the
  status is not 200 it returns \<open>None\<close> and prints nothing.
\<close>

theorem resolver_failures:
  assumes "glv = get_latest_version \<and> decode = max_version_of
         \<or> glv = get_latest_version_stable \<and> decode = select_stable"
  shows "(get (url crate_name) = Inl e \<longrightarrow>
            glv str_exn get crate_name =
              (JNull, [''Error fetching '' @ crate_name @ '': '' @ str_exn e]))
       \<and> (\<forall>response. get (url crate_name) = Inr response \<and> status_code response = 200
              \<and> json response = Inl e \<longrightarrow>
            glv str_exn get crate_name =
              (JNull, [''Error fetching '' @ crate_name @ '': '' @ str_exn e]))
       \<and> (\<forall>response data. get (url crate_name) = Inr response \<and> status_code response = 200
              \<and> json response = Inr data \<and> decode data = Inl e \<longrightarrow>
            glv str_exn get crate_name =
              (JNull, [''Error fetching '' @ crate_name @ '': '' @ str_exn e]))
       \<and> (\<forall>response. get (url crate_name) = Inr response \<and> status_code response \<noteq> 200 \<longrightarrow>
            glv str_exn get crate_name = (JNull, []))"
  using assms
proof
  assume "glv = get_latest_version \<and> decode = max_version_of"
  then show ?thesis
    by (auto simp add: get_latest_version_def try_latest_def error_fetching_def)
next
  assume "glv = get_latest_version_stable \<and> decode = select_stable"
  then show ?thesis
    by (auto simp add: get_latest_version_stable_def try_stable_def error_fetching_def)
qed

text \<open>A timeout, a body that is not JSON, a body without \<open>crate\<close>, and a status 404.\<close>

theorem resolver_failures_witness:
  "get_latest_version exn_text (answers (Inl (Timeout ''timed out''))) ''serde''
     = (JNull, [''Error fetching serde: timed out''])
   \<and> get_latest_version_stable exn_text
       (answers (Inr \<lparr>status_code = 200, json = Inl (JSONDecodeError ''Expecting value'')\<rparr>))
       ''serde''
     = (JNull, [''Error fetching serde: Expecting value''])
   \<and> get_latest_version exn_text (answers (Inr \<lparr>status_code = 200, json = Inr (JObj [])\<rparr>))
       ''serde''
     = (JNull, [''Error fetching serde: '' @ [CHR 0x27] @ ''crate'' @ [CHR 0x27]])
   \<and> get_latest_version_stable exn_text
       (answers (Inr \<lparr>status_code = 404, json = Inr registry_body\<rparr>)) ''serde''
     = (JNull, [])"
proof -
  let ?r2 = "\<lparr>status_code = 200, json = Inl (JSONDecodeError ''Expecting value'')\<rparr>"
  let ?r3 = "\<lparr>status_code = 200, json = Inr (JObj [])\<rparr>"
  let ?r4 = "\<lparr>status_code = 404, json = Inr registry_body\<rparr>"
  have 1: "get_latest_version exn_text (answers (Inl (Timeout ''timed out''))) ''serde''
      = (JNull, [''Error fetching '' @ ''serde'' @ '': '' @ exn_text (Timeout ''timed out'')])"
    using resolver_failures [of get_latest_version max_version_of
        "answers (Inl (Timeout ''timed out''))" "''serde''" "Timeout ''timed out''" exn_text]
    by (simp add: answers_def)
  have 2: "get_latest_version_stable exn_text (answers (Inr ?r2)) ''serde''
      = (JNull, [''Error fetching '' @ ''serde'' @ '': ''
          @ exn_text (JSONDecodeError ''Expecting value'')])"
    using resolver_failures [of get_latest_version_stable select_stable
        "answers (Inr ?r2)" "''serde''" "JSONDecodeError ''Expecting value''" exn_text]
    by (simp add: answers_def)
  have "max_version_of (JObj []) = Inl (KeyError ''crate'')"
    by (simp add: max_version_of_def)
  then have 3: "get_latest_version exn_text (answers (Inr ?r3)) ''serde''
      = (JNull, [''Error fetching '' @ ''serde'' @ '': '' @ exn_text (KeyError ''crate'')])"
    using resolver_failures [of get_latest_version max_version_of
        "answers (Inr ?r3)" "''serde''" "KeyError ''crate''" exn_text]
    by (simp add: answers_def)
  have 4: "get_latest_version_stable exn_text (answers (Inr ?r4)) ''serde'' = (JNull, [])"
    using resolver_failures [of get_latest_version_stable select_stable
        "answers (Inr ?r4)" "''serde''" _ exn_text]
    by (simp add: answers_def)
  from 1 2 3 4 show ?thesis
    by simp
qed

text \<open>
  Claim C1 as stated fails on a status other than 200: the lookup fails, the resolver
  returns \<open>None\<close>, and nothing is printed to the error stream.
\<close>

theorem resolver_failures_counterexample:
  "status_code \<lparr>status_code = 404, json = Inr registry_body\<rparr> \<noteq> 200
   \<and> get_latest_version exn_text
       (answers (Inr \<lparr>status_code = 404, json = Inr registry_body\<rparr>)) ''serde'' = (JNull, [])
   \<and> get_latest_version_stable exn_text
       (answers (Inr \<lparr>status_code = 500, json = Inl (JSONDecodeError ''Expecting value'')\<rparr>))
       ''serde'' = (JNull, [])"
  by (simp add: get_latest_version_def get_latest_version_stable_def try_latest_def
      try_stable_def answers_def)

section \<open>The version resolver: the stable policy\<close>

lemma version_fields_getitem:
  assumes "version_fields v = Some (num, yanked)"
  shows "getitem v ''num'' = Inr (JStr num)" and "getitem v ''yanked'' = Inr (JBool yanked)"
  using assms
  by (auto simp add: version_fields_def split: jvalue.splits option.splits)

lemma versions_loop_typed:
  "list_all (\<lambda>v. version_fields v \<noteq> None) vs \<Longrightarrow>
   versions_loop vs = Inr (map_option JStr (first_stable (map (\<lambda>v. the (version_fields v)) vs)))"
proof (induction vs)
  case Nil
  show ?case
    by (simp add: first_stable_def)
next
  case (Cons v vs)
  from Cons.prems obtain num yanked where v: "version_fields v = Some (num, yanked)"
    by auto
  have IH: "versions_loop vs =
      Inr (map_option JStr (first_stable (map (\<lambda>v. the (version_fields v)) vs)))"
    using Cons by simp
  show ?case
    by (simp add: version_fields_getitem [OF v] v IH first_stable_def)
qed

text \<open>
  Claim C3. For every registry response with status 200 whose body is an object of the
  shape the registry interface declares (\<open>versions\<close>, when present, is a list of objects
  with a string \<open>num\<close> and a boolean \<open>yanked\<close>; an absent \<open>versions\<close> counts as the empty
  list), the stable-policy resolver returns the \<open>num\<close> of the first element with
  \<open>yanked == false\<close> and no hyphen in \<open>num\<close>, printing nothing; if no element qualifies, also
  when the list is empty, it returns \<open>crate.max_version\<close> instead (and, where the body has
  no such value, \<open>None\<close> with the diagnostic of a failed lookup).
\<close>

theorem stable_selection:
  assumes "get (url crate_name) = Inr response"
    and "status_code response = 200"
    and "json response = Inr (JObj kvs)"
    and "map_of kvs ''versions'' = Some (JArr vs) \<or> map_of kvs ''versions'' = None \<and> vs = []"
    and "list_all (\<lambda>v. version_fields v \<noteq> None) vs"
  shows "get_latest_version_stable str_exn get crate_name =
     (case first_stable (map (\<lambda>v. the (version_fields v)) vs) of
        Some num \<Rightarrow> (JStr num, [])
      | None \<Rightarrow>
          (case max_version_of (JObj kvs) of
             Inr max_version \<Rightarrow> (max_version, [])
           | Inl e \<Rightarrow> (JNull, [error_fetching crate_name (str_exn e)])))"
proof -
  have "get_default (JObj kvs) ''versions'' (JArr []) = Inr (JArr vs)"
    using assms(4) by auto
  then have "select_stable (JObj kvs) =
      (case first_stable (map (\<lambda>v. the (version_fields v)) vs) of
         Some num \<Rightarrow> Inr (JStr num)
       | None \<Rightarrow> max_version_of (JObj kvs))"
    by (simp add: select_stable_def versions_loop_typed [OF assms(5)] split: option.splits)
  then show ?thesis
    using assms(1-3)
    by (simp add: get_latest_version_stable_def try_stable_def split: option.splits sum.splits)
qed

text \<open>
  The example of the specification: the pre-release is skipped and \<open>1.9.0\<close> is returned;
  and a body without \<open>versions\<close>, where the resolver falls back to \<open>crate.max_version\<close>.
\<close>

theorem stable_selection_witness:
  "get_latest_version_stable exn_text
     (answers (Inr \<lparr>status_code = 200, json = Inr registry_body\<rparr>)) ''serde''
     = (JStr ''1.9.0'', [])
   \<and> get_latest_version_stable exn_text
     (answers (Inr \<lparr>status_code = 200,
        json = Inr (JObj [(''crate'', JObj [(''max_version'', JStr ''0.1.0-rc.1'')])])\<rparr>)) ''serde''
     = (JStr ''0.1.0-rc.1'', [])"
proof -
  let ?vs = "[version_obj ''2.0.0-beta.1'' False, version_obj ''1.9.0'' False,
    version_obj ''1.8.0'' True]"
  let ?kvs = "[(''crate'', JObj [(''max_version'', JStr ''2.0.0-beta.1'')]), (''versions'', JArr ?vs)]"
  let ?kvs2 = "[(''crate'', JObj [(''max_version'', JStr ''0.1.0-rc.1'')])]"
  have f: "version_fields (version_obj num yanked) = Some (num, yanked)" for num yanked
    by (simp add: version_fields_def version_obj_def)
  let ?get = "answers (Inr \<lparr>status_code = 200, json = Inr registry_body\<rparr>)"
  let ?get2 = "answers (Inr \<lparr>status_code = 200, json = Inr (JObj ?kvs2)\<rparr>)"
  have a: "?get (url ''serde'') = Inr \<lparr>status_code = 200, json = Inr registry_body\<rparr>"
    "?get2 (url ''serde'') = Inr \<lparr>status_code = 200, json = Inr (JObj ?kvs2)\<rparr>"
    by (simp_all add: answers_def)
  have b: "json \<lparr>status_code = 200, json = Inr registry_body\<rparr> = Inr (JObj ?kvs)"
    by (simp add: registry_body_def)
  have c: "map_of ?kvs ''versions'' = Some (JArr ?vs) \<or> map_of ?kvs ''versions'' = None \<and> ?vs = []"
    "map_of ?kvs2 ''versions'' = Some (JArr []) \<or> map_of ?kvs2 ''versions'' = None \<and> [] = []"
    by simp_all
  have d: "list_all (\<lambda>v. version_fields v \<noteq> None) ?vs"
    "list_all (\<lambda>v. version_fields v \<noteq> None) []"
    by (auto simp add: f)
  have e: "first_stable (map (\<lambda>v. the (version_fields v)) ?vs) = Some ''1.9.0''"
    "first_stable (map (\<lambda>v. the (version_fields v)) []) = None"
    by (simp_all add: f first_stable_def)
  have m: "max_version_of (JObj ?kvs2) = Inr (JStr ''0.1.0-rc.1'')"
    by (simp add: max_version_of_def)
  have "get_latest_version_stable exn_text ?get ''serde'' =
      (case first_stable (map (\<lambda>v. the (version_fields v)) ?vs) of
         Some num \<Rightarrow> (JStr num, [])
       | None \<Rightarrow>
           (case max_version_of (JObj ?kvs) of
              Inr max_version \<Rightarrow> (max_version, [])
            | Inl e \<Rightarrow> (JNull, [error_fetching ''serde'' (exn_text e)])))"
    by (rule stable_selection [where response = "\<lparr>status_code = 200, json = Inr registry_body\<rparr>"])
      (fact a(1), simp, fact b, fact c(1), fact d(1))
  then have 1: "get_latest_version_stable exn_text ?get ''serde'' = (JStr ''1.9.0'', [])"
    unfolding e by simp
  have "get_latest_version_stable exn_text ?get2 ''serde'' =
      (case first_stable (map (\<lambda>v. the (version_fields v)) []) of
         Some num \<Rightarrow> (JStr num, [])
       | None \<Rightarrow>
           (case max_version_of (JObj ?kvs2) of
              Inr max_version \<Rightarrow> (max_version, [])
            | Inl e \<Rightarrow> (JNull, [error_fetching ''serde'' (exn_text e)])))"
    by (rule stable_selection [where response = "\<lparr>status_code = 200, json = Inr (JObj ?kvs2)\<rparr>"])
      (fact a(2), simp, simp, fact c(2), fact d(2))
  then have 2: "get_latest_version_stable exn_text ?get2 ''serde'' = (JStr ''0.1.0-rc.1'', [])"
    unfolding e m by simp
  from 1 2 show ?thesis
    by simp
qed

end
